theory Spec2Isabelle
  imports Complex_Main
begin

section \<open>Python values as decoded from JSON\<close>

text \<open>
  The server (\<^verbatim>\<open>neural_server.py\<close>) decodes one JSON document per connection and
  hands the decoded value to the policy. \<^verbatim>\<open>json.loads\<close> yields \<^verbatim>\<open>None\<close>, booleans,
  unbounded integers, floats (among them \<^verbatim>\<open>nan\<close>, \<^verbatim>\<open>inf\<close> and \<^verbatim>\<open>-inf\<close>, which the
  decoder accepts as the literals NaN, Infinity and -Infinity), strings, lists and
  dictionaries.

  The policy only ever compares numbers with small integer constants and takes
  absolute values. Python carries both operations out exactly on the values the
  operands denote, so a finite float is modelled by the rational number it denotes;
  the three special floats are separate constructors.
\<close>

datatype exn = TypeError | KeyError | AttributeError | ValueError | OSError

datatype pyfloat = FReal rat | FPosInf | FNegInf | FNaN

datatype pyval =
    PNone
  | PBool bool
  | PInt int
  | PFloat pyfloat
  | PStr string
  | PList "pyval list"
  | PDict "(string \<times> pyval) list"

text \<open>\<^verbatim>\<open>d.get(k, default)\<close>: only a dictionary has the method. A dictionary is an
  association list read with \<open>map_of\<close>: the first binding of a key is the one that
  counts.\<close>

fun py_get :: "pyval \<Rightarrow> string \<Rightarrow> pyval \<Rightarrow> exn + pyval" where
  "py_get (PDict kvs) k d = Inr (case map_of kvs k of None \<Rightarrow> d | Some v \<Rightarrow> v)"
| "py_get _ k d = Inl AttributeError"

text \<open>\<^verbatim>\<open>d[k]\<close> with a string key: \<^verbatim>\<open>KeyError\<close> on a dictionary without the key,
  \<^verbatim>\<open>TypeError\<close> on every other value.\<close>

fun py_getitem :: "pyval \<Rightarrow> string \<Rightarrow> exn + pyval" where
  "py_getitem (PDict kvs) k = (case map_of kvs k of None \<Rightarrow> Inl KeyError | Some v \<Rightarrow> Inr v)"
| "py_getitem _ k = Inl TypeError"

text \<open>The numeric tower: \<^verbatim>\<open>bool\<close> is a subclass of \<^verbatim>\<open>int\<close>, and an integer compares
  with a float by its exact value.\<close>

fun num_of :: "pyval \<Rightarrow> pyfloat option" where
  "num_of (PBool b) = Some (FReal (if b then 1 else 0))"
| "num_of (PInt i) = Some (FReal (of_int i))"
| "num_of (PFloat f) = Some f"
| "num_of _ = None"

fun fl_lt :: "pyfloat \<Rightarrow> int \<Rightarrow> bool" where
  "fl_lt (FReal r) k = (r < of_int k)"
| "fl_lt FNegInf k = True"
| "fl_lt FPosInf k = False"
| "fl_lt FNaN k = False"

fun fl_le :: "pyfloat \<Rightarrow> int \<Rightarrow> bool" where
  "fl_le (FReal r) k = (r \<le> of_int k)"
| "fl_le FNegInf k = True"
| "fl_le FPosInf k = False"
| "fl_le FNaN k = False"

fun fl_gt :: "pyfloat \<Rightarrow> int \<Rightarrow> bool" where
  "fl_gt (FReal r) k = (of_int k < r)"
| "fl_gt FPosInf k = True"
| "fl_gt FNegInf k = False"
| "fl_gt FNaN k = False"

text \<open>\<^verbatim>\<open>v < k\<close>, \<^verbatim>\<open>v <= k\<close> and \<^verbatim>\<open>v > k\<close> for an integer literal \<open>k\<close>: \<^verbatim>\<open>TypeError\<close>
  unless \<open>v\<close> is a number.\<close>

definition py_lt :: "pyval \<Rightarrow> int \<Rightarrow> exn + bool" where
  "py_lt v k = (case num_of v of None \<Rightarrow> Inl TypeError | Some x \<Rightarrow> Inr (fl_lt x k))"

definition py_le :: "pyval \<Rightarrow> int \<Rightarrow> exn + bool" where
  "py_le v k = (case num_of v of None \<Rightarrow> Inl TypeError | Some x \<Rightarrow> Inr (fl_le x k))"

definition py_gt :: "pyval \<Rightarrow> int \<Rightarrow> exn + bool" where
  "py_gt v k = (case num_of v of None \<Rightarrow> Inl TypeError | Some x \<Rightarrow> Inr (fl_gt x k))"

fun fl_abs :: "pyfloat \<Rightarrow> pyfloat" where
  "fl_abs (FReal r) = FReal \<bar>r\<bar>"
| "fl_abs FPosInf = FPosInf"
| "fl_abs FNegInf = FPosInf"
| "fl_abs FNaN = FNaN"

fun py_abs :: "pyval \<Rightarrow> exn + pyval" where
  "py_abs (PBool b) = Inr (PInt (if b then 1 else 0))"
| "py_abs (PInt i) = Inr (PInt \<bar>i\<bar>)"
| "py_abs (PFloat f) = Inr (PFloat (fl_abs f))"
| "py_abs _ = Inl TypeError"

text \<open>Iteration (\<^verbatim>\<open>for e in v\<close>): a list yields its elements, a dictionary its keys,
  a string its characters; nothing else is iterable.\<close>

fun py_iter :: "pyval \<Rightarrow> exn + pyval list" where
  "py_iter (PList es) = Inr es"
| "py_iter (PDict kvs) = Inr (map PStr (remdups (map fst kvs)))"
| "py_iter (PStr s) = Inr (map (\<lambda>c. PStr [c]) s)"
| "py_iter _ = Inl TypeError"

section \<open>The policy engine\<close>

text \<open>The dictionary that \<^verbatim>\<open>heuristic_policy\<close> returns. \<open>confidence\<close> holds the decimal
  literal of the source, as the rational number it denotes.\<close>

record decision =
  action :: string
  confidence :: rat

text \<open>
  \<^verbatim>\<open>sum(1 for e in all_entities if e.get("distance", 99) < 8)\<close>: the generator is
  consumed in order, and the first element that has no \<^verbatim>\<open>get\<close> or whose distance
  does not compare with 8 raises.
\<close>

fun count_near :: "pyval list \<Rightarrow> exn + nat" where
  "count_near [] = Inr 0"
| "count_near (e # es) =
     (case py_get e ''distance'' (PInt 99) of
        Inl x \<Rightarrow> Inl x
      | Inr d \<Rightarrow>
         (case py_lt d 8 of
            Inl x \<Rightarrow> Inl x
          | Inr b \<Rightarrow>
             (case count_near es of
                Inl x \<Rightarrow> Inl x
              | Inr n \<Rightarrow> Inr (if b then Suc n else n))))"

definition nearby_count :: "pyval \<Rightarrow> exn + nat" where
  "nearby_count all_entities =
     (case py_iter all_entities of Inl x \<Rightarrow> Inl x | Inr es \<Rightarrow> count_near es)"

text \<open>
  The rules of \<^verbatim>\<open>heuristic_policy\<close> after \<^verbatim>\<open>dist\<close> (here \<open>distance\<close>), \<^verbatim>\<open>angle\<close>
  and \<^verbatim>\<open>nearby_count\<close> are known (source lines 37 to 47). Each result carries the
  source line of the
  \<^verbatim>\<open>return\<close> statement that produced it. \<open>coin\<close> is the outcome of
  \<^verbatim>\<open>random.choice(["strafe_left", "strafe_right"])\<close>: \<open>True\<close> for the first element.
  \<^verbatim>\<open>and\<close> evaluates its right operand only when the left one is true.
\<close>

definition engage :: "bool \<Rightarrow> pyval \<Rightarrow> pyval \<Rightarrow> pyval \<Rightarrow> nat \<Rightarrow> exn + (nat \<times> decision)" where
  "engage coin health distance angle n =
     (case (if 3 \<le> n then py_lt health 15 else Inr False) of
        Inl x \<Rightarrow> Inl x
      | Inr swarm \<Rightarrow>
         if swarm then Inr (38, \<lparr>action = ''flee'', confidence = 0.85\<rparr>)
         else
          (case py_gt angle 90 of
             Inl x \<Rightarrow> Inl x
           | Inr behind \<Rightarrow>
              if behind then Inr (40, \<lparr>action = ''strafe_left'', confidence = 0.7\<rparr>)
              else
               (case py_gt distance 6 of
                  Inl x \<Rightarrow> Inl x
                | Inr far \<Rightarrow>
                   if far then Inr (42, \<lparr>action = ''attack'', confidence = 0.6\<rparr>)
                   else
                    (case py_le distance 3 of
                       Inl x \<Rightarrow> Inl x
                     | Inr close \<Rightarrow>
                        (case (if close then py_lt angle 45 else Inr False) of
                           Inl x \<Rightarrow> Inl x
                         | Inr strike \<Rightarrow>
                            if strike then Inr (44, \<lparr>action = ''attack'', confidence = 0.95\<rparr>)
                            else
                             (case py_le distance 6 of
                                Inl x \<Rightarrow> Inl x
                              | Inr mid \<Rightarrow>
                                 if mid
                                 then Inr (46, \<lparr>action = (if coin then ''strafe_left'' else ''strafe_right''),
                                                confidence = 0.75\<rparr>)
                                 else Inr (47, \<lparr>action = ''attack'', confidence = 0.6\<rparr>)))))))"

text \<open>
  Source lines 33 to 35: \<^verbatim>\<open>hostile["distance"]\<close>, \<^verbatim>\<open>abs(hostile.get("angle", 0))\<close>
  and the count of nearby entities, in this order.
\<close>

definition threat :: "bool \<Rightarrow> pyval \<Rightarrow> pyval \<Rightarrow> pyval \<Rightarrow> exn + (nat \<times> decision)" where
  "threat coin health hostile all_entities =
     (case py_getitem hostile ''distance'' of
        Inl x \<Rightarrow> Inl x
      | Inr distance \<Rightarrow>
         (case py_get hostile ''angle'' (PInt 0) of
            Inl x \<Rightarrow> Inl x
          | Inr a \<Rightarrow>
             (case py_abs a of
                Inl x \<Rightarrow> Inl x
              | Inr angle \<Rightarrow>
                 (case nearby_count all_entities of
                    Inl x \<Rightarrow> Inl x
                  | Inr n \<Rightarrow> engage coin health distance angle n))))"

text \<open>\<^verbatim>\<open>heuristic_policy\<close> with the line of the \<^verbatim>\<open>return\<close> that was executed.\<close>

definition heuristic_policy_line :: "bool \<Rightarrow> pyval \<Rightarrow> exn + (nat \<times> decision)" where
  "heuristic_policy_line coin obs =
     (case py_get obs ''bot_health'' (PInt 20) of
        Inl x \<Rightarrow> Inl x
      | Inr health \<Rightarrow>
         (case py_get obs ''nearest_hostile'' PNone of
            Inl x \<Rightarrow> Inl x
          | Inr hostile \<Rightarrow>
             (case py_get obs ''all_entities'' (PList []) of
                Inl x \<Rightarrow> Inl x
              | Inr all_entities \<Rightarrow>
                 (case py_le health 4 of
                    Inl x \<Rightarrow> Inl x
                  | Inr critical \<Rightarrow>
                     if critical then Inr (29, \<lparr>action = ''flee'', confidence = 0.99\<rparr>)
                     else if hostile = PNone
                     then Inr (31, \<lparr>action = ''idle'', confidence = 0.95\<rparr>)
                     else threat coin health hostile all_entities))))"

definition heuristic_policy :: "bool \<Rightarrow> pyval \<Rightarrow> exn + decision" where
  "heuristic_policy coin obs =
     (case heuristic_policy_line coin obs of Inl x \<Rightarrow> Inl x | Inr (l, d) \<Rightarrow> Inr d)"

section \<open>The connection handler\<close>

text \<open>
  A connection is a socket as \<^verbatim>\<open>handle_connection\<close> uses it: \<^verbatim>\<open>recv\<close>, \<^verbatim>\<open>sendall\<close>
  and \<^verbatim>\<open>close\<close>. What the peer does on the inbound half is a list of events:
  \<open>Data bs\<close> makes the bytes \<open>bs\<close> readable, \<open>Reset\<close> makes the next \<^verbatim>\<open>recv\<close> raise
  (\<^verbatim>\<open>ConnectionResetError\<close>, an \<^verbatim>\<open>OSError\<close>), \<open>Stall\<close> is a peer that neither sends
  nor closes, so that \<^verbatim>\<open>recv\<close> never returns (the socket has no timeout). After
  the last event the peer has closed its half and \<^verbatim>\<open>recv\<close> returns \<^verbatim>\<open>b""\<close>.

  \<open>send_fails\<close> says whether \<^verbatim>\<open>sendall\<close> raises (the peer is gone: \<^verbatim>\<open>BrokenPipeError\<close>,
  an \<^verbatim>\<open>OSError\<close>). \<open>sendall_calls\<close> lists the payloads handed to \<^verbatim>\<open>sendall\<close>, in
  call order, and \<open>close_calls\<close> counts the calls of \<^verbatim>\<open>close\<close>.

  Exceptions are instances of \<^verbatim>\<open>Exception\<close>. \<^verbatim>\<open>log.warning\<close> has no effect on the
  connection and is left out.
\<close>

datatype recv_ev = Data string | Reset | Stall

datatype recv_result = Chunk string | RecvRaises exn | Blocks

record conn =
  incoming :: "recv_ev list"
  send_fails :: bool
  sendall_calls :: "string list"
  close_calls :: nat

text \<open>\<^verbatim>\<open>conn.recv(n)\<close>: at most \<open>n\<close> of the bytes that are readable; the rest stays.\<close>

fun recv :: "nat \<Rightarrow> recv_ev list \<Rightarrow> recv_result \<times> recv_ev list" where
  "recv n [] = (Chunk [], [])"
| "recv n (Data bs # evs) =
     (if length bs \<le> n then (Chunk bs, evs) else (Chunk (take n bs), Data (drop n bs) # evs))"
| "recv n (Reset # evs) = (RecvRaises OSError, evs)"
| "recv n (Stall # evs) = (Blocks, Stall # evs)"

definition sendall :: "conn \<Rightarrow> string \<Rightarrow> exn option \<times> conn" where
  "sendall c payload =
     (if send_fails c then Some OSError else None,
      c\<lparr>sendall_calls := sendall_calls c @ [payload]\<rparr>)"

definition close_conn :: "conn \<Rightarrow> conn" where
  "close_conn c = c\<lparr>close_calls := Suc (close_calls c)\<rparr>"

definition newline :: char where
  "newline = CHR 0x0A"

definition fallback :: string where
  \<open>fallback = ''{"action":"idle","confidence":0.5}'' @ [newline]\<close>

text \<open>
  The read loop of source lines 66 to 71, from the buffer \<open>data\<close> on. It ends with the
  buffer (\<open>RDone\<close>), with the exception \<^verbatim>\<open>recv\<close> raised (\<open>RRaised\<close>), or never
  (\<open>RBlocked\<close>).
\<close>

datatype read_result = RDone string "recv_ev list" | RRaised exn "recv_ev list" | RBlocked

fun pending_bytes :: "recv_ev list \<Rightarrow> nat" where
  "pending_bytes [] = 0"
| "pending_bytes (Data bs # evs) = Suc (length bs + pending_bytes evs)"
| "pending_bytes (ev # evs) = Suc (pending_bytes evs)"

function read_loop :: "string \<Rightarrow> recv_ev list \<Rightarrow> read_result" where
  "read_loop data evs =
     (case recv 4096 evs of
        (Blocks, evs') \<Rightarrow> RBlocked
      | (RecvRaises e, evs') \<Rightarrow> RRaised e evs'
      | (Chunk chunk, evs') \<Rightarrow>
          if chunk = [] then RDone data evs'
          else if newline \<in> set (data @ chunk) \<or> 8192 < length (data @ chunk)
          then RDone (data @ chunk) evs'
          else read_loop (data @ chunk) evs')"
  by pat_completeness auto

lemma recv_chunk_decreases:
  "recv n evs = (Chunk chunk, evs') \<Longrightarrow> chunk \<noteq> [] \<Longrightarrow> 0 < n \<Longrightarrow>
     pending_bytes evs' < pending_bytes evs"
  by (induction n evs rule: recv.induct) (auto split: if_splits)

termination read_loop
  by (relation "measure (\<lambda>(data, evs). pending_bytes evs)")
     (auto dest: recv_chunk_decreases [OF sym])

declare read_loop.simps [simp del]

text \<open>
  Source lines 73 to 75 without the write: decode, decide, encode.
  \<open>loads\<close> stands for \<^verbatim>\<open>json.loads(data.decode().strip())\<close> and \<open>dumps\<close> for
  \<^verbatim>\<open>json.dumps(action)\<close> followed by \<^verbatim>\<open>.encode()\<close>; both belong to the Python library
  and are parameters here. Each of the three steps may raise.
\<close>

definition process ::
  "(string \<Rightarrow> exn + 'o) \<Rightarrow> ('o \<Rightarrow> exn + 'a) \<Rightarrow> ('a \<Rightarrow> exn + string) \<Rightarrow> string \<Rightarrow> exn + string" where
  "process loads policy_fn dumps data =
     (case loads data of
        Inl e \<Rightarrow> Inl e
      | Inr obs \<Rightarrow>
         (case policy_fn obs of
            Inl e \<Rightarrow> Inl e
          | Inr act \<Rightarrow>
             (case dumps act of
                Inl e \<Rightarrow> Inl e
              | Inr s \<Rightarrow> Inr (s @ [newline]))))"

text \<open>
  The \<^verbatim>\<open>try\<close> block (source lines 66 to 75): \<open>None\<close> when it never ends, otherwise
  the exception it raised, if any, and the connection.
\<close>

definition try_block ::
  "(string \<Rightarrow> exn + 'o) \<Rightarrow> ('a \<Rightarrow> exn + string) \<Rightarrow> conn \<Rightarrow> ('o \<Rightarrow> exn + 'a) \<Rightarrow>
     (exn option \<times> conn) option" where
  "try_block loads dumps c policy_fn =
     (case read_loop [] (incoming c) of
        RBlocked \<Rightarrow> None
      | RRaised e evs \<Rightarrow> Some (Some e, c\<lparr>incoming := evs\<rparr>)
      | RDone data evs \<Rightarrow>
          if data = [] then Some (None, c\<lparr>incoming := evs\<rparr>)
          else
           (case process loads policy_fn dumps data of
              Inl e \<Rightarrow> Some (Some e, c\<lparr>incoming := evs\<rparr>)
            | Inr payload \<Rightarrow> Some (sendall (c\<lparr>incoming := evs\<rparr>) payload)))"

text \<open>
  \<^verbatim>\<open>handle_connection(conn, policy_fn)\<close>: the \<^verbatim>\<open>try\<close> block, the \<^verbatim>\<open>except Exception\<close>
  clause that sends the fallback (source line 78) and the \<^verbatim>\<open>finally\<close> clause that
  closes the connection. An exception raised inside the \<^verbatim>\<open>except\<close> clause is not
  caught: it leaves the function after \<^verbatim>\<open>finally\<close> has run.
\<close>

datatype outcome = Returned | Propagated exn

definition handle_connection ::
  "(string \<Rightarrow> exn + 'o) \<Rightarrow> ('a \<Rightarrow> exn + string) \<Rightarrow> conn \<Rightarrow> ('o \<Rightarrow> exn + 'a) \<Rightarrow>
     (outcome \<times> conn) option" where
  "handle_connection loads dumps c policy_fn =
     (case try_block loads dumps c policy_fn of
        None \<Rightarrow> None
      | Some (None, c1) \<Rightarrow> Some (Returned, close_conn c1)
      | Some (Some e, c1) \<Rightarrow>
         (case sendall c1 fallback of
            (None, c2) \<Rightarrow> Some (Returned, close_conn c2)
          | (Some e2, c2) \<Rightarrow> Some (Propagated e2, close_conn c2)))"

section \<open>The accept loop\<close>

text \<open>
  The loop of \<^verbatim>\<open>main\<close> (source lines 95 to 98) over the connections that clients
  open, in the order \<^verbatim>\<open>server.accept()\<close> returns them; each comes with the outcome
  that \<^verbatim>\<open>random.choice\<close> would have while it is handled. The policy is always
  \<^verbatim>\<open>heuristic_policy\<close> (source line 87). The loop calls \<^verbatim>\<open>handle_connection\<close> and
  accepts again only when the call has returned. An exception that leaves
  \<^verbatim>\<open>handle_connection\<close> is not a \<^verbatim>\<open>KeyboardInterrupt\<close>, so it leaves the loop and
  \<^verbatim>\<open>main\<close>: the server process ends.

  The result lists the connections handled to the end, says how the loop stands
  after them, and lists the connections that were never accepted.
\<close>

datatype server_state = Accepting | Stuck | Crashed exn

fun main_loop ::
  "(string \<Rightarrow> exn + pyval) \<Rightarrow> (decision \<Rightarrow> exn + string) \<Rightarrow> (bool \<times> conn) list \<Rightarrow>
     conn list \<times> server_state \<times> (bool \<times> conn) list" where
  "main_loop loads dumps [] = ([], Accepting, [])"
| "main_loop loads dumps ((coin, c) # rest) =
     (case handle_connection loads dumps c (heuristic_policy coin) of
        None \<Rightarrow> ([], Stuck, rest)
      | Some (Propagated e, c') \<Rightarrow> ([c'], Crashed e, rest)
      | Some (Returned, c') \<Rightarrow>
         (case main_loop loads dumps rest of
            (handled, st, waiting) \<Rightarrow> (c' # handled, st, waiting)))"

section \<open>Sample connections and library functions for the examples\<close>

text \<open>A connection as \<^verbatim>\<open>server.accept()\<close> returns it, with a peer that behaves as \<open>evs\<close>
  and stays to read the response.\<close>

definition accepted :: "recv_ev list \<Rightarrow> conn" where
  "accepted evs = \<lparr>incoming = evs, send_fails = False, sendall_calls = [], close_calls = 0\<rparr>"

text \<open>
  The properties below hold for every decoder and encoder. The examples need
  concrete ones: \<open>loads_sample\<close> agrees with \<^verbatim>\<open>json.loads(data.decode().strip())\<close>
  on the requests the examples send (the document \<^verbatim>\<open>{}\<close> and text that is not JSON),
  and \<open>dumps_sample\<close> agrees with \<^verbatim>\<open>json.dumps\<close> on the decisions used there.
\<close>

definition loads_sample :: "string \<Rightarrow> exn + pyval" where
  "loads_sample data = (if data = ''{}'' @ [newline] then Inr (PDict []) else Inl ValueError)"

definition dumps_sample :: "decision \<Rightarrow> exn + string" where
  \<open>dumps_sample d =
     (if d = \<lparr>action = ''idle'', confidence = 0.95\<rparr>
      then Inr ''{"action": "idle", "confidence": 0.95}''
      else if d = \<lparr>action = ''flee'', confidence = 0.99\<rparr>
      then Inr ''{"action": "flee", "confidence": 0.99}''
      else Inl TypeError)\<close>

section \<open>Predicates used to state the properties\<close>

text \<open>A value that Python compares with an integer without raising.\<close>

definition is_num :: "pyval \<Rightarrow> bool" where
  "is_num v = (num_of v \<noteq> None)"



text \<open>The \<^verbatim>\<open>return\<close> statements of \<^verbatim>\<open>heuristic_policy\<close>, by source line, with the
  decision each one builds.\<close>

definition return_sites :: "(nat \<times> decision) list" where
  "return_sites =
    [(29, \<lparr>action = ''flee'', confidence = 0.99\<rparr>),
     (31, \<lparr>action = ''idle'', confidence = 0.95\<rparr>),
     (38, \<lparr>action = ''flee'', confidence = 0.85\<rparr>),
     (40, \<lparr>action = ''strafe_left'', confidence = 0.7\<rparr>),
     (42, \<lparr>action = ''attack'', confidence = 0.6\<rparr>),
     (44, \<lparr>action = ''attack'', confidence = 0.95\<rparr>),
     (46, \<lparr>action = ''strafe_left'', confidence = 0.75\<rparr>),
     (46, \<lparr>action = ''strafe_right'', confidence = 0.75\<rparr>),
     (47, \<lparr>action = ''attack'', confidence = 0.6\<rparr>)]"

text \<open>
  Well-typed observations, after the schema in the source (lines 18 and 19):
  \<^verbatim>\<open>bot_health\<close> absent or a number; \<^verbatim>\<open>nearest_hostile\<close> absent, null or a record
  with a numeric \<^verbatim>\<open>distance\<close> and an absent or numeric \<^verbatim>\<open>angle\<close>; \<^verbatim>\<open>all_entities\<close>
  absent or a list of records whose \<^verbatim>\<open>distance\<close> is absent or a number.
\<close>

fun entity_ok :: "pyval \<Rightarrow> bool" where
  "entity_ok (PDict kvs) = (case map_of kvs ''distance'' of None \<Rightarrow> True | Some d \<Rightarrow> is_num d)"
| "entity_ok _ = False"

fun hostile_ok :: "pyval \<Rightarrow> bool" where
  "hostile_ok PNone = True"
| "hostile_ok (PDict kvs) =
     ((case map_of kvs ''distance'' of None \<Rightarrow> False | Some d \<Rightarrow> is_num d) \<and>
      (case map_of kvs ''angle'' of None \<Rightarrow> True | Some a \<Rightarrow> is_num a))"
| "hostile_ok _ = False"

fun entities_ok :: "pyval \<Rightarrow> bool" where
  "entities_ok (PList es) = list_all entity_ok es"
| "entities_ok _ = False"

fun well_typed :: "pyval \<Rightarrow> bool" where
  "well_typed (PDict kvs) =
     ((case map_of kvs ''bot_health'' of None \<Rightarrow> True | Some h \<Rightarrow> is_num h) \<and>
      (case map_of kvs ''nearest_hostile'' of None \<Rightarrow> True | Some h \<Rightarrow> hostile_ok h) \<and>
      (case map_of kvs ''all_entities'' of None \<Rightarrow> True | Some es \<Rightarrow> entities_ok es))"
| "well_typed _ = False"

text \<open>The accept loop: whether the handler of an accepted connection returns, and the
  state in which it leaves the connection.\<close>

definition returns_normally ::
  "(string \<Rightarrow> exn + pyval) \<Rightarrow> (decision \<Rightarrow> exn + string) \<Rightarrow> bool \<times> conn \<Rightarrow> bool" where
  "returns_normally loads dumps cc =
     (case handle_connection loads dumps (snd cc) (heuristic_policy (fst cc)) of
        Some (Returned, c') \<Rightarrow> True
      | _ \<Rightarrow> False)"

definition final_conn ::
  "(string \<Rightarrow> exn + pyval) \<Rightarrow> (decision \<Rightarrow> exn + string) \<Rightarrow> bool \<times> conn \<Rightarrow> conn" where
  "final_conn loads dumps cc =
     (case handle_connection loads dumps (snd cc) (heuristic_policy (fst cc)) of
        Some (out, c') \<Rightarrow> c'
      | None \<Rightarrow> snd cc)"

text \<open>The test of source line 71, negated: the buffer has no newline and at most 8192
  bytes, so the loop reads on. And a list of chunks such as \<^verbatim>\<open>recv(4096)\<close> returns them
  from an open connection: none empty, none longer than 4096 bytes.\<close>

definition keeps_reading :: "string \<Rightarrow> bool" where
  "keeps_reading buf \<longleftrightarrow> newline \<notin> set buf \<and> length buf \<le> 8192"

definition recv_sized :: "string list \<Rightarrow> bool" where
  "recv_sized cs = list_all (\<lambda>c. c \<noteq> [] \<and> length c \<le> 4096) cs"

section \<open>Properties of the policy engine\<close>



text \<open>
  Claim C6. Whenever the observation's \<^verbatim>\<open>bot_health\<close> is a number that is at most 4,
  the policy returns \<^verbatim>\<open>flee\<close> with confidence 0.99, whatever the other fields hold:
  the list \<open>kvs\<close> of the remaining fields is arbitrary, so \<^verbatim>\<open>nearest_hostile\<close> and
  \<^verbatim>\<open>all_entities\<close> may be missing or malformed.
\<close>

theorem flee_when_critical:
  assumes "map_of kvs ''bot_health'' = Some h" and "num_of h = Some x" and "fl_le x 4"
  shows "heuristic_policy coin (PDict kvs) = Inr \<lparr>action = ''flee'', confidence = 0.99\<rparr>"
  using assms by (simp add: heuristic_policy_def heuristic_policy_line_def py_le_def)

theorem flee_when_critical_witness:
  "heuristic_policy False
     (PDict [(''bot_health'', PInt 4), (''nearest_hostile'', PStr ''zombie''),
             (''all_entities'', PNone)])
   = Inr \<lparr>action = ''flee'', confidence = 0.99\<rparr>"
  using flee_when_critical [of "[(''bot_health'', PInt 4), (''nearest_hostile'', PStr ''zombie''),
             (''all_entities'', PNone)]" "PInt 4" "FReal 4" False]
  by simp

text \<open>
  Claim C7. When the health in effect (the field, or 20 when it is absent) is a number
  greater than 4 and \<^verbatim>\<open>nearest_hostile\<close> is absent or null, the policy returns
  \<^verbatim>\<open>idle\<close> with confidence 0.95, and it does so from the \<^verbatim>\<open>return\<close> of source
  line 31, before the lines that read \<^verbatim>\<open>distance\<close> and \<^verbatim>\<open>angle\<close> of the hostile.
\<close>

theorem idle_without_hostile:
  assumes "py_get obs ''bot_health'' (PInt 20) = Inr h" and "num_of h = Some x" and "fl_gt x 4"
    and "py_get obs ''nearest_hostile'' PNone = Inr PNone"
  shows "heuristic_policy coin obs = Inr \<lparr>action = ''idle'', confidence = 0.95\<rparr> \<and>
         heuristic_policy_line coin obs = Inr (31, \<lparr>action = ''idle'', confidence = 0.95\<rparr>)"
proof -
  have "\<not> fl_le x 4" using \<open>fl_gt x 4\<close> by (cases x) auto
  moreover obtain kvs where "obs = PDict kvs" using assms(1) by (cases obs) auto
  ultimately show ?thesis using assms
    by (simp add: heuristic_policy_def heuristic_policy_line_def py_le_def)
qed

theorem idle_without_hostile_witness:
  "heuristic_policy True (PDict [(''bot_health'', PInt 5), (''nearest_hostile'', PNone)])
     = Inr \<lparr>action = ''idle'', confidence = 0.95\<rparr> \<and>
   heuristic_policy_line True (PDict [(''bot_health'', PInt 5), (''nearest_hostile'', PNone)])
     = Inr (31, \<lparr>action = ''idle'', confidence = 0.95\<rparr>)"
  using idle_without_hostile [of "PDict [(''bot_health'', PInt 5), (''nearest_hostile'', PNone)]"
      "PInt 5" "FReal 5" True]
  by simp

lemma engage_return_sites:
  "engage coin health distance angle n = Inr r \<Longrightarrow> r \<in> set return_sites"
  unfolding engage_def return_sites_def
  by (simp split: sum.splits if_splits; blast)

lemma threat_return_sites:
  "threat coin health hostile all_entities = Inr r \<Longrightarrow> r \<in> set return_sites"
  unfolding threat_def
  by (auto split: sum.splits dest: engage_return_sites)

lemma policy_line_return_sites:
  "heuristic_policy_line coin obs = Inr r \<Longrightarrow> r \<in> set return_sites"
  unfolding heuristic_policy_line_def
  by (auto split: sum.splits if_splits dest: threat_return_sites simp: return_sites_def)

text \<open>
  Claim C9. Every decision the policy returns has one of the actions \<^verbatim>\<open>attack\<close>,
  \<^verbatim>\<open>strafe_left\<close>, \<^verbatim>\<open>strafe_right\<close>, \<^verbatim>\<open>flee\<close>, \<^verbatim>\<open>idle\<close>, never \<^verbatim>\<open>use_item\<close>, and a
  confidence in the interval (0, 1], namely one of 0.6, 0.7, 0.75, 0.85, 0.95, 0.99.
\<close>

theorem decision_range:
  assumes "heuristic_policy coin obs = Inr d"
  shows "action d \<in> {''attack'', ''strafe_left'', ''strafe_right'', ''flee'', ''idle''} \<and>
     action d \<noteq> ''use_item'' \<and>
     0 < confidence d \<and> confidence d \<le> 1 \<and>
     confidence d \<in> {0.6, 0.7, 0.75, 0.85, 0.95, 0.99}"
proof -
  from assms obtain l where "(l, d) \<in> set return_sites"
    by (auto simp: heuristic_policy_def split: sum.splits dest: policy_line_return_sites)
  then show ?thesis unfolding return_sites_def by auto
qed

theorem decision_range_witness:
  "action \<lparr>action = ''strafe_right'', confidence = 0.75\<rparr>
      \<in> {''attack'', ''strafe_left'', ''strafe_right'', ''flee'', ''idle''} \<and>
   action \<lparr>action = ''strafe_right'', confidence = 0.75\<rparr> \<noteq> ''use_item'' \<and>
   0 < confidence \<lparr>action = ''strafe_right'', confidence = 0.75\<rparr> \<and>
   confidence \<lparr>action = ''strafe_right'', confidence = 0.75\<rparr> \<le> 1 \<and>
   confidence \<lparr>action = ''strafe_right'', confidence = 0.75\<rparr>
      \<in> {0.6, 0.7, 0.75, 0.85, 0.95, 0.99}"
proof -
  have "heuristic_policy False
          (PDict [(''bot_health'', PInt 18),
                  (''nearest_hostile'', PDict [(''distance'', PInt 5), (''angle'', PInt 60)]),
                  (''all_entities'', PList [PDict [(''distance'', PInt 5)]])])
        = Inr \<lparr>action = ''strafe_right'', confidence = 0.75\<rparr>"
    by (simp add: heuristic_policy_def heuristic_policy_line_def threat_def engage_def
        nearby_count_def py_le_def py_lt_def py_gt_def)
  then show ?thesis by (rule decision_range)
qed

text \<open>
  Claim C8, as amended. The trailing \<^verbatim>\<open>return\<close> of source line 47 is not executed when
  the health in effect is a number greater than 4 and the hostile is a record whose
  \<^verbatim>\<open>distance\<close> is a number other than NaN: whenever the policy returns on such an
  observation, it returns from one of the rules 4 to 8 (source lines 38, 40, 42, 44
  and 46). A \<^verbatim>\<open>distance\<close> of NaN fails all three comparisons of lines 41, 43 and 45
  and does reach line 47.
\<close>

theorem fallback_unreachable_unless_nan:
  assumes "py_get obs ''bot_health'' (PInt 20) = Inr h" and "num_of h = Some hx" and "fl_gt hx 4"
    and "py_get obs ''nearest_hostile'' PNone = Inr (PDict hkvs)"
    and "map_of hkvs ''distance'' = Some dv" and "num_of dv = Some x" and "x \<noteq> FNaN"
    and "heuristic_policy_line coin obs = Inr (l, d)"
  shows "l \<in> {38, 40, 42, 44, 46}"
proof -
  obtain kvs where obs: "obs = PDict kvs" using assms(1) by (cases obs) auto
  have nle: "\<not> fl_le hx 4" using \<open>fl_gt hx 4\<close> by (cases hx) auto
  have part: "fl_gt x 6 \<or> fl_le x 6" using \<open>x \<noteq> FNaN\<close> by (cases x) auto
  from assms(8) obs assms(1,2,4) nle
  have "threat coin h (PDict hkvs)
          (case map_of kvs ''all_entities'' of None \<Rightarrow> PList [] | Some v \<Rightarrow> v) = Inr (l, d)"
    by (simp add: heuristic_policy_line_def py_le_def)
  then obtain angle n where "engage coin h dv angle n = Inr (l, d)"
    using assms(5) by (auto simp: threat_def split: sum.splits)
  then show ?thesis using part assms(6)
    unfolding engage_def
    by (auto simp: py_gt_def py_le_def split: sum.splits if_splits)
qed

theorem fallback_unreachable_unless_nan_witness:
  "heuristic_policy_line True
     (PDict [(''bot_health'', PInt 20),
             (''nearest_hostile'', PDict [(''distance'', PInt 5), (''angle'', PInt 60)]),
             (''all_entities'', PList [])])
   = Inr (46, \<lparr>action = ''strafe_left'', confidence = 0.75\<rparr>) \<and>
   (46::nat) \<in> {38, 40, 42, 44, 46}"
proof -
  let ?obs = "PDict [(''bot_health'', PInt 20),
             (''nearest_hostile'', PDict [(''distance'', PInt 5), (''angle'', PInt 60)]),
             (''all_entities'', PList [])]"
  have run: "heuristic_policy_line True ?obs
      = Inr (46, \<lparr>action = ''strafe_left'', confidence = 0.75\<rparr>)"
    by (simp add: heuristic_policy_line_def threat_def engage_def
        nearby_count_def py_le_def py_lt_def py_gt_def)
  have "(46::nat) \<in> {38, 40, 42, 44, 46}"
    by (rule fallback_unreachable_unless_nan
        [of ?obs "PInt 20" "FReal 20" "[(''distance'', PInt 5), (''angle'', PInt 60)]"
          "PInt 5" "FReal 5" True 46 "\<lparr>action = ''strafe_left'', confidence = 0.75\<rparr>"])
       (simp_all add: run)
  with run show ?thesis by simp
qed

text \<open>The claim as stated fails: with a \<^verbatim>\<open>distance\<close> of NaN (a float, which the
  decoder produces for the literal NaN) the trailing \<^verbatim>\<open>return\<close> of line 47 is executed.\<close>

theorem fallback_reached_on_nan:
  "heuristic_policy_line True
     (PDict [(''bot_health'', PInt 20),
             (''nearest_hostile'', PDict [(''distance'', PFloat FNaN), (''angle'', PInt 0)]),
             (''all_entities'', PList [])])
   = Inr (47, \<lparr>action = ''attack'', confidence = 0.6\<rparr>)"
  by (simp add: heuristic_policy_line_def threat_def engage_def
      nearby_count_def py_le_def py_lt_def py_gt_def)

lemma is_numE: "is_num v \<Longrightarrow> \<exists>x. num_of v = Some x"
  by (simp add: is_num_def)

lemma count_near_total: "list_all entity_ok es \<Longrightarrow> \<exists>n. count_near es = Inr n"
proof (induction es)
  case Nil
  then show ?case by simp
next
  case (Cons e es)
  then obtain n where n: "count_near es = Inr n" by auto
  from Cons.prems have "entity_ok e" by simp
  then obtain kvs where e: "e = PDict kvs" by (cases e) auto
  show ?case
  proof (cases "map_of kvs ''distance''")
    case None
    then show ?thesis using e n by (simp add: py_lt_def)
  next
    case (Some d)
    with \<open>entity_ok e\<close> e obtain x where "num_of d = Some x" by (auto dest: is_numE)
    then show ?thesis using e n Some by (simp add: py_lt_def)
  qed
qed

lemma nearby_count_total: "entities_ok v \<Longrightarrow> \<exists>n. nearby_count v = Inr n"
  by (cases v) (auto simp: nearby_count_def dest: count_near_total)




lemma py_abs_num: "is_num a \<Longrightarrow> \<exists>v. py_abs a = Inr v \<and> is_num v"
  by (cases a) (auto simp: is_num_def)

lemma engage_total:
  assumes "is_num health" and "is_num distance" and "is_num angle"
  shows "\<exists>r. engage coin health distance angle n = Inr r"
proof -
  from assms obtain h d a where "num_of health = Some h" "num_of distance = Some d"
    "num_of angle = Some a" by (auto dest!: is_numE)
  then show ?thesis by (simp add: engage_def py_lt_def py_gt_def py_le_def)
qed

lemma threat_total:
  assumes "is_num health" and "hostile_ok hostile" and "hostile \<noteq> PNone"
    and "entities_ok all_entities"
  shows "\<exists>r. threat coin health hostile all_entities = Inr r"
proof -
  from assms(2,3) obtain kvs where h: "hostile = PDict kvs" by (cases hostile) auto
  with assms(2) obtain d where d: "map_of kvs ''distance'' = Some d" "is_num d"
    by (auto split: option.splits)
  have "is_num (case map_of kvs ''angle'' of None \<Rightarrow> PInt 0 | Some v \<Rightarrow> v)"
    using assms(2) h by (auto split: option.splits simp: is_num_def)
  then obtain angle where
    a: "py_abs (case map_of kvs ''angle'' of None \<Rightarrow> PInt 0 | Some v \<Rightarrow> v) = Inr angle"
      "is_num angle"
    using py_abs_num by blast
  obtain n where n: "nearby_count all_entities = Inr n"
    using assms(4) nearby_count_total by blast
  show ?thesis using h d a n engage_total [OF assms(1) d(2) a(2)]
    by (simp add: threat_def)
qed

text \<open>
  Claim C1, as amended. The policy returns a decision, and raises nothing, on every
  well-typed observation record. (It is not total on all records: the counterexample
  below has a \<^verbatim>\<open>bot_health\<close> that is a string.)
\<close>

theorem policy_total_on_well_typed:
  assumes "well_typed obs"
  shows "\<exists>d. heuristic_policy coin obs = Inr d"
proof -
  from assms obtain kvs where obs: "obs = PDict kvs" by (cases obs) auto
  define health where
    "health = (case map_of kvs ''bot_health'' of None \<Rightarrow> PInt 20 | Some v \<Rightarrow> v)"
  define hostile where
    "hostile = (case map_of kvs ''nearest_hostile'' of None \<Rightarrow> PNone | Some v \<Rightarrow> v)"
  define ents where
    "ents = (case map_of kvs ''all_entities'' of None \<Rightarrow> PList [] | Some v \<Rightarrow> v)"
  have hn: "is_num health" using assms obs
    by (auto simp: health_def is_num_def split: option.splits)
  have ho: "hostile_ok hostile" using assms obs
    by (auto simp: hostile_def split: option.splits)
  have eo: "entities_ok ents" using assms obs
    by (auto simp: ents_def split: option.splits)
  from hn obtain x where x: "num_of health = Some x" by (auto dest: is_numE)
  have "\<exists>r. heuristic_policy_line coin obs = Inr r"
  proof (cases "fl_le x 4 \<or> hostile = PNone")
    case True
    then show ?thesis using x obs
      by (auto simp: heuristic_policy_line_def py_le_def health_def [symmetric]
          hostile_def [symmetric])
  next
    case False
    then have "hostile \<noteq> PNone" by simp
    from threat_total [OF hn ho this eo, of coin] obtain r where
      "threat coin health hostile ents = Inr r" by blast
    then show ?thesis using False x obs
      by (simp add: heuristic_policy_line_def py_le_def health_def [symmetric]
          hostile_def [symmetric] ents_def [symmetric])
  qed
  then show ?thesis by (auto simp: heuristic_policy_def split: prod.splits)
qed

theorem policy_total_on_well_typed_witness:
  "well_typed
     (PDict [(''bot_health'', PInt 12),
             (''nearest_hostile'', PDict [(''distance'', PInt 2), (''angle'', PInt (-30))]),
             (''all_entities'', PList [PDict [(''distance'', PInt 2)], PDict []])]) \<and>
   (\<exists>d. heuristic_policy False
     (PDict [(''bot_health'', PInt 12),
             (''nearest_hostile'', PDict [(''distance'', PInt 2), (''angle'', PInt (-30))]),
             (''all_entities'', PList [PDict [(''distance'', PInt 2)], PDict []])]) = Inr d)"
proof -
  have wt: "well_typed
     (PDict [(''bot_health'', PInt 12),
             (''nearest_hostile'', PDict [(''distance'', PInt 2), (''angle'', PInt (-30))]),
             (''all_entities'', PList [PDict [(''distance'', PInt 2)], PDict []])])"
    by (simp add: is_num_def)
  from wt policy_total_on_well_typed [OF wt, of False] show ?thesis by simp
qed

text \<open>The claim as stated fails: a record whose \<^verbatim>\<open>bot_health\<close> is a string makes the
  comparison of source line 28 raise \<^verbatim>\<open>TypeError\<close>.\<close>

theorem policy_raises_on_text_health:
  "heuristic_policy True
     (PDict [(''bot_health'', PStr ''low''), (''nearest_hostile'', PNone),
             (''all_entities'', PList [])])
   = Inl TypeError"
  by (simp add: heuristic_policy_def heuristic_policy_line_def py_le_def)

section \<open>Properties of the connection handler\<close>

lemma recv_chunk_length: "recv n evs = (Chunk chunk, evs') \<Longrightarrow> length chunk \<le> n"
  by (induction n evs rule: recv.induct) (auto split: if_splits)

lemma read_loop_stops:
  assumes "read_loop data evs = RDone out evs'"
    and "newline \<notin> set data" and "length data \<le> 8192"
  shows "\<exists>pre chunk. out = pre @ chunk \<and> length chunk \<le> 4096 \<and>
           newline \<notin> set pre \<and> length pre \<le> 8192 \<and>
           (chunk = [] \<or> newline \<in> set out \<or> 8192 < length out)"
  using assms
proof (induction data evs rule: read_loop.induct)
  case (1 data evs)
  obtain r rest where rc: "recv 4096 evs = (r, rest)" by (cases "recv 4096 evs")
  show ?case
  proof (cases r)
    case (Chunk chunk)
    note len = recv_chunk_length [OF rc [unfolded Chunk]]
    show ?thesis
    proof (cases "chunk = []")
      case True
      with "1.prems" rc Chunk have "out = data"
        by (simp add: read_loop.simps [of data evs])
      with "1.prems" show ?thesis by (intro exI [of _ data] exI [of _ "[]"]) simp
    next
      case False
      show ?thesis
      proof (cases "newline \<in> set (data @ chunk) \<or> 8192 < length (data @ chunk)")
        case True
        with "1.prems" rc Chunk False have "out = data @ chunk"
          by (simp add: read_loop.simps [of data evs])
        with "1.prems" True len show ?thesis
          by (intro exI [of _ data] exI [of _ chunk]) simp
      next
        case stay: False
        with "1.prems" rc Chunk False have "read_loop (data @ chunk) rest = RDone out evs'"
          by (simp add: read_loop.simps [of data evs])
        moreover from stay have "newline \<notin> set (data @ chunk)" "length (data @ chunk) \<le> 8192"
          by auto
        ultimately show ?thesis
          using "1.IH" [OF rc [symmetric] Chunk False stay] by blast
      qed
    qed
  next
    case (RecvRaises e)
    with "1.prems" rc show ?thesis by (simp add: read_loop.simps [of data evs])
  next
    case Blocks
    with "1.prems" rc show ?thesis by (simp add: read_loop.simps [of data evs])
  qed
qed






lemma handle_connection_empty_read:
  assumes "fst (recv 4096 (incoming c)) = Chunk []"
  shows "\<exists>c'. handle_connection loads dumps c policy_fn = Some (Returned, c') \<and>
           sendall_calls c' = sendall_calls c \<and> close_calls c' = Suc (close_calls c)"
proof -
  obtain rest where "recv 4096 (incoming c) = (Chunk [], rest)"
    using assms by (cases "recv 4096 (incoming c)") auto
  then have "read_loop [] (incoming c) = RDone [] rest"
    by (simp add: read_loop.simps [of "[]" "incoming c"])
  then show ?thesis
    by (simp add: handle_connection_def try_block_def close_conn_def)
qed

lemma keeps_reading_prefix: "keeps_reading (a @ b) \<Longrightarrow> keeps_reading a"
  by (simp add: keeps_reading_def)

lemma read_loop_continues:
  assumes "recv_sized cs" and "keeps_reading (data @ concat cs)"
  shows "read_loop data (map Data cs @ rest) = read_loop (data @ concat cs) rest"
  using assms
proof (induction cs arbitrary: data)
  case Nil
  then show ?case by simp
next
  case (Cons c cs)
  from Cons.prems(1) have c: "c \<noteq> []" "length c \<le> 4096" and cs: "recv_sized cs"
    by (simp_all add: recv_sized_def)
  from Cons.prems(2) have all: "keeps_reading ((data @ c) @ concat cs)" by simp
  then have "keeps_reading (data @ c)" by (rule keeps_reading_prefix)
  then have "read_loop data (map Data (c # cs) @ rest) = read_loop (data @ c) (map Data cs @ rest)"
    using c by (simp add: read_loop.simps [of data] keeps_reading_def)
  also have "\<dots> = read_loop ((data @ c) @ concat cs) rest"
    using cs all by (rule Cons.IH)
  finally show ?case by simp
qed

lemma read_loop_stops_at:
  assumes "recv_sized (cs @ [c])" and "keeps_reading (concat cs)"
    and "\<not> keeps_reading (concat cs @ c)"
  shows "read_loop [] (map Data (cs @ [c]) @ rest) = RDone (concat cs @ c) rest"
proof -
  from assms(1) have cs: "recv_sized cs" and c: "c \<noteq> []" "length c \<le> 4096"
    by (simp_all add: recv_sized_def)
  have "read_loop [] (map Data (cs @ [c]) @ rest) = read_loop [] (map Data cs @ Data c # rest)"
    by simp
  also have "\<dots> = read_loop ([] @ concat cs) (Data c # rest)"
    using cs assms(2) by (intro read_loop_continues) simp_all
  also have "\<dots> = RDone (concat cs @ c) rest"
    using c assms(3) by (auto simp: read_loop.simps [of "concat cs"] keeps_reading_def)
  finally show ?thesis .
qed

lemma read_loop_peer_closes:
  assumes "recv_sized cs" and "keeps_reading (concat cs)"
  shows "read_loop [] (map Data cs) = RDone (concat cs) []"
proof -
  have "read_loop [] (map Data cs @ []) = read_loop ([] @ concat cs) []"
    using assms by (intro read_loop_continues) simp_all
  then show ?thesis by (simp add: read_loop.simps [of "concat cs" "[]"])
qed

lemma read_loop_peer_stalls:
  assumes "recv_sized cs" and "keeps_reading (concat cs)"
  shows "read_loop [] (map Data cs @ Stall # rest) = RBlocked"
proof -
  have "read_loop [] (map Data cs @ Stall # rest) = read_loop ([] @ concat cs) (Stall # rest)"
    using assms by (intro read_loop_continues) simp_all
  then show ?thesis by (simp add: read_loop.simps [of "concat cs"])
qed

lemma read_loop_bound:
  assumes "read_loop [] evs = RDone data evs'"
  shows "\<exists>pre chunk. data = pre @ chunk \<and> keeps_reading pre \<and> length chunk \<le> 4096"
proof -
  from read_loop_stops [OF assms] show ?thesis by (auto simp: keeps_reading_def)
qed

text \<open>
  Claim C5, as amended. The read loop stops as soon as the buffer holds a newline or
  more than 8192 bytes, and not before. For chunks as \<^verbatim>\<open>recv\<close> returns them: if the
  buffer made of the chunks \<open>cs\<close> still has no newline and at most 8192 bytes and the
  next chunk \<open>ch\<close> brings a newline or takes it beyond 8192 bytes, the loop ends with
  exactly \<open>cs\<close> and \<open>ch\<close> in the buffer and leaves the rest unread; if the buffer
  made of all the chunks sent has no newline and at most 8192 bytes, the loop ends
  with all of them when the peer closes, and never ends when the peer stalls. On
  every connection the final buffer is a buffer without newline of at most 8192
  bytes followed by one chunk of at most 4096 bytes, so it never exceeds 12288
  bytes. And when the first \<^verbatim>\<open>recv\<close> returns no bytes (the peer closed before
  sending), the handler returns without any \<^verbatim>\<open>sendall\<close>, after closing the
  connection.
\<close>

theorem read_loop_framing:
  "(recv_sized (cs @ [ch]) \<and> keeps_reading (concat cs) \<and> \<not> keeps_reading (concat cs @ ch) \<longrightarrow>
      read_loop [] (map Data (cs @ [ch]) @ rest) = RDone (concat cs @ ch) rest) \<and>
   (recv_sized cs \<and> keeps_reading (concat cs) \<longrightarrow>
      read_loop [] (map Data cs) = RDone (concat cs) [] \<and>
      read_loop [] (map Data cs @ Stall # rest) = RBlocked) \<and>
   (\<forall>data evs'. read_loop [] (incoming c) = RDone data evs' \<longrightarrow>
      (\<exists>pre chunk. data = pre @ chunk \<and> keeps_reading pre \<and> length chunk \<le> 4096) \<and>
      length data \<le> 12288) \<and>
   (fst (recv 4096 (incoming c)) = Chunk [] \<longrightarrow>
      (\<exists>c'. handle_connection loads dumps c policy_fn = Some (Returned, c') \<and>
         sendall_calls c' = sendall_calls c \<and> close_calls c' = Suc (close_calls c)))"
proof (intro conjI allI impI)
  assume "recv_sized (cs @ [ch]) \<and> keeps_reading (concat cs) \<and> \<not> keeps_reading (concat cs @ ch)"
  then show "read_loop [] (map Data (cs @ [ch]) @ rest) = RDone (concat cs @ ch) rest"
    by (intro read_loop_stops_at) simp_all
next
  assume a: "recv_sized cs \<and> keeps_reading (concat cs)"
  then show "read_loop [] (map Data cs) = RDone (concat cs) []"
    by (intro read_loop_peer_closes) simp_all
  from a show "read_loop [] (map Data cs @ Stall # rest) = RBlocked"
    by (intro read_loop_peer_stalls) simp_all
next
  fix data evs'
  assume rl: "read_loop [] (incoming c) = RDone data evs'"
  from read_loop_bound [OF rl] obtain pre chunk where
    *: "data = pre @ chunk" "keeps_reading pre" "length chunk \<le> 4096" by blast
  then show "\<exists>pre chunk. data = pre @ chunk \<and> keeps_reading pre \<and> length chunk \<le> 4096"
    by blast
  from * show "length data \<le> 12288" by (simp add: keeps_reading_def)
next
  assume "fst (recv 4096 (incoming c)) = Chunk []"
  then show "\<exists>c'. handle_connection loads dumps c policy_fn = Some (Returned, c') \<and>
         sendall_calls c' = sendall_calls c \<and> close_calls c' = Suc (close_calls c)"
    by (rule handle_connection_empty_read)
qed

text \<open>The claim as stated fails: after two full chunks the buffer has reached 8192
  bytes, the test \<^verbatim>\<open>len(data) > 8192\<close> is false and the loop reads on; the buffer ends
  at 12288 bytes without a newline.\<close>

theorem buffer_exceeds_8192_without_newline:
  "read_loop []
     [Data (replicate 4096 (CHR ''a'')), Data (replicate 4096 (CHR ''a'')),
      Data (replicate 4096 (CHR ''a''))]
   = RDone (replicate 12288 (CHR ''a'')) [] \<and>
   8192 < length (replicate 12288 (CHR ''a'')) \<and>
   newline \<notin> set (replicate 12288 (CHR ''a''))"
  by (simp add: read_loop.simps newline_def replicate_add [symmetric])

theorem read_loop_framing_witness:
  "read_loop [] [Data ''{}'', Data [newline], Data ''late''] = RDone (''{}'' @ [newline]) [Data ''late''] \<and>
   read_loop [] [Data ''{}'', Data ''  ''] = RDone ''{}  '' [] \<and>
   read_loop [] [Data ''{}'', Data ''  '', Stall, Data ''late''] = RBlocked \<and>
   length (''{}'' @ [newline]) \<le> 12288 \<and>
   (\<exists>c'. handle_connection loads_sample dumps_sample (accepted []) (heuristic_policy True)
            = Some (Returned, c') \<and>
         sendall_calls c' = [] \<and> close_calls c' = 1)"
proof -
  have a: "recv_sized ([''{}''] @ [[newline]]) \<and> keeps_reading (concat [''{}'']) \<and>
      \<not> keeps_reading (concat [''{}''] @ [newline])"
    by (simp add: recv_sized_def keeps_reading_def newline_def)
  have b: "recv_sized [''{}'', ''  ''] \<and> keeps_reading (concat [''{}'', ''  ''])"
    by (simp add: recv_sized_def keeps_reading_def newline_def)
  have rl: "read_loop [] (incoming (accepted [Data (''{}'' @ [newline])]))
      = RDone (''{}'' @ [newline]) []"
    by (simp add: accepted_def read_loop.simps newline_def)
  have ev: "fst (recv 4096 (incoming (accepted []))) = Chunk []"
    by (simp add: accepted_def)
  from read_loop_framing [THEN conjunct1, rule_format, OF a, of "[Data ''late'']"]
  have 1: "read_loop [] [Data ''{}'', Data [newline], Data ''late'']
      = RDone (''{}'' @ [newline]) [Data ''late'']"
    by simp
  from read_loop_framing [THEN conjunct2, THEN conjunct1, rule_format, OF b,
      of "[Data ''late'']"]
  have 2: "read_loop [] [Data ''{}'', Data ''  ''] = RDone ''{}  '' []"
    and 3: "read_loop [] [Data ''{}'', Data ''  '', Stall, Data ''late''] = RBlocked"
    by simp_all
  from read_loop_framing [THEN conjunct2, THEN conjunct2, THEN conjunct1, rule_format, OF rl]
  have 4: "length (''{}'' @ [newline]) \<le> 12288"
    by simp
  from read_loop_framing [THEN conjunct2, THEN conjunct2, THEN conjunct2, rule_format, OF ev,
      of loads_sample dumps_sample "heuristic_policy True"]
  have 5: "\<exists>c'. handle_connection loads_sample dumps_sample (accepted []) (heuristic_policy True)
            = Some (Returned, c') \<and>
         sendall_calls c' = [] \<and> close_calls c' = 1"
    by (simp add: accepted_def)
  from 1 2 3 4 5 show ?thesis by blast
qed

lemma handle_connection_propagates:
  "handle_connection loads dumps c policy_fn = Some (Propagated e, c') \<Longrightarrow> send_fails c"
  by (cases "read_loop [] (incoming c)")
     (auto simp: handle_connection_def try_block_def sendall_def close_conn_def
           split: sum.splits if_splits)

text \<open>
  Claim C2: what the code does. The claim (no exception of a connection ever leaves
  \<^verbatim>\<open>handle_connection\<close>, so none ends the accept loop) does not hold of the code: the
  \<^verbatim>\<open>except\<close> clause itself calls \<^verbatim>\<open>conn.sendall\<close>. On a connection that the peer
  resets, \<^verbatim>\<open>recv\<close> raises, the fallback \<^verbatim>\<open>sendall\<close> raises in turn, the exception
  leaves \<^verbatim>\<open>handle_connection\<close> and ends the loop of \<^verbatim>\<open>main\<close>; the connection that
  waits behind it is never accepted. (By \<open>handle_connection_propagates\<close>, a failing
  \<^verbatim>\<open>sendall\<close> is the only way for an exception to leave the handler.)
\<close>

theorem reset_connection_ends_accept_loop:
  "handle_connection loads_sample dumps_sample
     ((accepted [Reset])\<lparr>send_fails := True\<rparr>) (heuristic_policy True)
   = Some (Propagated OSError,
           \<lparr>incoming = [], send_fails = True, sendall_calls = [fallback], close_calls = 1\<rparr>) \<and>
   main_loop loads_sample dumps_sample
     [(True, (accepted [Reset])\<lparr>send_fails := True\<rparr>),
      (True, accepted [Data (''{}'' @ [newline])])]
   = ([\<lparr>incoming = [], send_fails = True, sendall_calls = [fallback], close_calls = 1\<rparr>],
      Crashed OSError,
      [(True, accepted [Data (''{}'' @ [newline])])])"
  by (simp add: handle_connection_def try_block_def sendall_def close_conn_def accepted_def
      read_loop.simps)

section \<open>Properties of the accept loop\<close>

lemma main_loop_append:
  assumes "list_all (returns_normally loads dumps) cs"
  shows "main_loop loads dumps (cs @ rest) =
           (case main_loop loads dumps rest of
              (handled, st, waiting) \<Rightarrow> (map (final_conn loads dumps) cs @ handled, st, waiting))"
  using assms
proof (induction cs)
  case Nil
  then show ?case by simp
next
  case (Cons cc cs)
  obtain coin c where cc: "cc = (coin, c)" by (cases cc)
  from Cons.prems cc obtain c' where
    hc: "handle_connection loads dumps c (heuristic_policy coin) = Some (Returned, c')"
    by (auto simp: returns_normally_def split: option.splits outcome.splits)
  from Cons have IH: "main_loop loads dumps (cs @ rest) =
           (case main_loop loads dumps rest of
              (handled, st, waiting) \<Rightarrow> (map (final_conn loads dumps) cs @ handled, st, waiting))"
    by simp
  show ?case using hc cc IH
    by (simp add: final_conn_def split: prod.splits)
qed

text \<open>
  Claim C4, as amended. The accept loop handles connections strictly one after the
  other, in the order they are accepted: as long as handlers return, the loop goes
  on to the next connection; a handler that never returns (it is blocked in \<^verbatim>\<open>recv\<close>
  on a stalled peer) leaves every later connection unaccepted and unhandled, whatever
  those connections are.
\<close>

theorem accept_loop_sequential:
  assumes "list_all (returns_normally loads dumps) cs"
    and "handle_connection loads dumps c (heuristic_policy coin) = None"
  shows "main_loop loads dumps (cs @ (coin, c) # rest)
           = (map (final_conn loads dumps) cs, Stuck, rest)"
  using main_loop_append [OF assms(1), of "(coin, c) # rest"] assms(2) by simp

text \<open>The claim as stated fails: a first peer that sends an unfinished request and
  then stalls keeps the second connection, whose complete request is ready, from
  ever being accepted.\<close>

theorem stalled_connection_blocks_next:
  \<open>main_loop loads_sample dumps_sample
     [(True, accepted [Data ''{"bot_health": 3'', Stall]),
      (True, accepted [Data (''{}'' @ [newline])])]
   = ([], Stuck, [(True, accepted [Data (''{}'' @ [newline])])])\<close>
  by (simp add: handle_connection_def try_block_def accepted_def read_loop.simps newline_def)

theorem accept_loop_sequential_witness:
  "main_loop loads_sample dumps_sample
     ([(True, accepted [Data (''{}'' @ [newline])])] @
      (False, accepted [Data ''abc'', Stall]) #
      [(False, accepted [Data (''not json'' @ [newline])])])
   = (map (final_conn loads_sample dumps_sample) [(True, accepted [Data (''{}'' @ [newline])])],
      Stuck,
      [(False, accepted [Data (''not json'' @ [newline])])])"
proof -
  have first: \<open>handle_connection loads_sample dumps_sample
      (accepted [Data (''{}'' @ [newline])]) (heuristic_policy True)
    = Some (Returned, \<lparr>incoming = [], send_fails = False,
        sendall_calls = [''{"action": "idle", "confidence": 0.95}'' @ [newline]],
        close_calls = 1\<rparr>)\<close>
    by (simp add: handle_connection_def try_block_def accepted_def read_loop.simps newline_def
        process_def loads_sample_def dumps_sample_def sendall_def close_conn_def
        heuristic_policy_def heuristic_policy_line_def py_le_def)
  then have ok: "list_all (returns_normally loads_sample dumps_sample)
      [(True, accepted [Data (''{}'' @ [newline])])]"
    by (simp add: returns_normally_def)
  have stall: "handle_connection loads_sample dumps_sample
      (accepted [Data ''abc'', Stall]) (heuristic_policy False) = None"
    by (simp add: handle_connection_def try_block_def accepted_def read_loop.simps newline_def)
  from ok stall show ?thesis by (rule accept_loop_sequential)
qed

end
